theory Spec2Isabelle
  imports Complex_Main "HOL-Library.Sublist" "HOL-Library.Multiset"
begin

section \<open>Python values\<close>

text \<open>
  A Python \<^verbatim>\<open>str\<close> is a sequence of Unicode code points. The names of the factor table
  contain U+00E9 and U+00ED, so a code point is a natural number and not a byte.
\<close>

type_synonym pystr = "nat list"

abbreviation str :: "string \<Rightarrow> pystr" where
  "str s \<equiv> map of_char s"

subsection \<open>Binary64 floating point\<close>

text \<open>
  A finite \<^verbatim>\<open>float\<close> is a pair of integers, \<open>Float64 m e\<close> for the number \<open>m * 2 ^ e\<close>, kept in
  the canonical form of the format: \<open>2 ^ 52 \<le> \<bar>m\<bar> < 2 ^ 53\<close>, or \<open>\<bar>m\<bar> < 2 ^ 52\<close> and
  \<open>e = -1074\<close> (zero and the subnormal numbers). Two floats are then equal exactly when they
  are the same pair. Every literal and every arithmetic result is the exact value rounded to
  the nearest such number, ties to the even mantissa. Infinities and NaN are not
  represented: every number of this program lies between \<open>0.03\<close> and \<open>6000\<close>.
\<close>

datatype float64 = Float64 (mant: int) (expo: int)

definition pow2 :: "int \<Rightarrow> rat" where
  "pow2 e = (if 0 \<le> e then 2 ^ nat e else 1 / 2 ^ nat (- e))"

text \<open>The number a float denotes.\<close>

definition valof :: "float64 \<Rightarrow> rat" where
  "valof x = of_int (mant x) * pow2 (expo x)"

text \<open>The number of binary digits of a positive integer (\<^verbatim>\<open>int.bit_length\<close>).\<close>

function bit_length :: "int \<Rightarrow> nat" where
  "bit_length n = (if n \<le> 0 then 0 else Suc (bit_length (n div 2)))"
  by pat_completeness auto
termination
  by (relation "measure nat") auto

declare bit_length.simps [simp del]

text \<open>The ratio \<open>n / d\<close> divided by \<open>2 ^ k\<close>, again as a ratio of integers.\<close>

definition shift_ratio :: "int \<Rightarrow> int \<Rightarrow> int \<Rightarrow> int \<times> int" where
  "shift_ratio n d k = (if 0 \<le> k then (n, d * 2 ^ nat k) else (n * 2 ^ nat (- k), d))"

text \<open>\<open>ilog2 n d\<close> is the integer \<open>e\<close> with \<open>2 ^ e \<le> n / d < 2 ^ (e + 1)\<close>, for \<open>0 < n\<close> and \<open>0 < d\<close>.\<close>

definition ilog2 :: "int \<Rightarrow> int \<Rightarrow> int" where
  "ilog2 n d =
     (let l = int (bit_length n) - int (bit_length d);
          (p, q) = shift_ratio n d l
      in if q \<le> p then l else l - 1)"

text \<open>The integer nearest to \<open>p / q\<close>, ties to the even one, for \<open>0 \<le> p\<close> and \<open>0 < q\<close>.\<close>

definition rne :: "int \<Rightarrow> int \<Rightarrow> int" where
  "rne p q =
     (let f = p div q; r = p mod q
      in if 2 * r < q then f else if q < 2 * r then f + 1 else if even f then f else f + 1)"

text \<open>\<open>fl64 n d\<close> is the float nearest to \<open>n / d\<close>, for \<open>0 < d\<close>.\<close>

definition fl64 :: "int \<Rightarrow> int \<Rightarrow> float64" where
  "fl64 n d =
     (if n = 0 then Float64 0 (- 1074)
      else let u = max (ilog2 \<bar>n\<bar> d - 52) (- 1074);
               (p, q) = shift_ratio \<bar>n\<bar> d u;
               m = rne p q
           in if m = 2 ^ 53 then Float64 (sgn n * 2 ^ 52) (u + 1) else Float64 (sgn n * m) u)"

text \<open>Python's \<^verbatim>\<open>a * b\<close> and \<^verbatim>\<open>a + b\<close> on floats: the exact result, rounded once.\<close>

definition fmul :: "float64 \<Rightarrow> float64 \<Rightarrow> float64" where
  "fmul a b =
     (let (n, d) = shift_ratio (mant a * mant b) 1 (- (expo a + expo b)) in fl64 n d)"

definition fadd :: "float64 \<Rightarrow> float64 \<Rightarrow> float64" where
  "fadd a b =
     (let e = min (expo a) (expo b);
          m = mant a * 2 ^ nat (expo a - e) + mant b * 2 ^ nat (expo b - e);
          (n, d) = shift_ratio m 1 (- e)
      in fl64 n d)"

text \<open>The comparison \<^verbatim>\<open>a <= b\<close> of two floats.\<close>

definition fle :: "float64 \<Rightarrow> float64 \<Rightarrow> bool" where
  "fle a b =
     (let e = min (expo a) (expo b)
      in mant a * 2 ^ nat (expo a - e) \<le> mant b * 2 ^ nat (expo b - e))"

text \<open>\<^verbatim>\<open>int(x)\<close> and \<^verbatim>\<open>.astype(int)\<close> drop the fractional part (truncation toward zero).\<close>

definition astype_int :: "float64 \<Rightarrow> int" where
  "astype_int x =
     (if 0 \<le> expo x then mant x * 2 ^ nat (expo x)
      else sgn (mant x) * (\<bar>mant x\<bar> div 2 ^ nat (- expo x)))"

section \<open>The data tables\<close>

subsection \<open>\<^verbatim>\<open>get_regional_data\<close>\<close>

text \<open>A data frame is the list of its rows, in index order; a row is a record of its columns.\<close>

record region_row =
  Regional :: pystr
  Total :: float64
  Alcance_1 :: float64
  Alcance_2 :: float64
  Alcance_3 :: float64
  Arboles :: int

definition data_Regional :: "pystr list" where
  "data_Regional = [str ''GRB'', str ''CATENARE'', str ''VRC'', str ''GGS'',
                    str ''VRO'', str ''GOR'', str ''VAO'', str ''CEDI'']"

definition data_Total :: "float64 list" where
  "data_Total = [fl64 50 100, fl64 1425 100, fl64 4646 100, fl64 2834 100,
                 fl64 3631 100, fl64 1316 100, fl64 907 100, fl64 38 100]"

definition get_regional_data :: "region_row list" where
  "get_regional_data =
     map (\<lambda>(n, t).
            \<lparr>Regional = n, Total = t,
             Alcance_1 = fmul t (fl64 75 100),
             Alcance_2 = fmul t (fl64 15 100),
             Alcance_3 = fmul t (fl64 10 100),
             Arboles = astype_int (fmul t (fl64 40 1))\<rparr>)
         (zip data_Regional data_Total)"

subsection \<open>\<^verbatim>\<open>get_general_indicators\<close>\<close>

record general_indicators =
  Huella_Total :: float64
  Meta_Reduccion :: float64
  Alcance_1_pct :: int
  Alcance_2_pct :: int
  Alcance_3_pct :: int
  Arboles_Totales :: int

definition get_general_indicators :: general_indicators where
  "get_general_indicators =
     (let total_huella = fl64 14847 100;
          total_arboles = astype_int (fmul total_huella (fl64 40 1))
      in \<lparr>Huella_Total = total_huella,
          Meta_Reduccion = fl64 14105 100,
          Alcance_1_pct = 75,
          Alcance_2_pct = 15,
          Alcance_3_pct = 10,
          Arboles_Totales = total_arboles\<rparr>)"

section \<open>The Control Panel view\<close>

subsection \<open>\<^verbatim>\<open>df_reg.sort_values(by="Total", ascending=False)\<close>\<close>

text \<open>
  For a descending sort pandas reverses the column, sorts it in ascending order and reverses
  the result, so that rows with equal keys keep their original order. The ascending sort is
  an insertion sort here; the totals of the table are pairwise different, so that the order
  of the result does not depend on the sorting algorithm.
\<close>

fun insort_Total :: "region_row \<Rightarrow> region_row list \<Rightarrow> region_row list" where
  "insort_Total x [] = [x]"
| "insort_Total x (y # ys) =
     (if fle (Total x) (Total y) then x # y # ys else y # insort_Total x ys)"

definition sort_values_Total_desc :: "region_row list \<Rightarrow> region_row list" where
  "sort_values_Total_desc df = rev (foldr insort_Total (rev df) [])"

subsection \<open>\<^verbatim>\<open>df_reg.loc[df_reg['Total'].idxmax()]\<close>\<close>

datatype py_error = ValueError | KeyError

text \<open>
  \<open>argmax_from b bi i xs\<close> scans \<open>xs\<close>, whose first element has position \<open>i\<close>, with the
  greatest value \<open>b\<close> seen so far and its position \<open>bi\<close>. A later element replaces the
  candidate only when it is strictly greater, so the first occurrence of the maximum wins.
\<close>

fun argmax_from :: "float64 \<Rightarrow> nat \<Rightarrow> nat \<Rightarrow> float64 list \<Rightarrow> nat" where
  "argmax_from b bi i [] = bi"
| "argmax_from b bi i (x # xs) =
     (if fle x b then argmax_from b bi (Suc i) xs else argmax_from x i (Suc i) xs)"

text \<open>\<^verbatim>\<open>Series.idxmax\<close> raises \<^verbatim>\<open>ValueError\<close> on an empty column.\<close>

definition idxmax :: "float64 list \<Rightarrow> py_error + nat" where
  "idxmax xs = (case xs of [] \<Rightarrow> Inl ValueError | x # rest \<Rightarrow> Inr (argmax_from x 0 1 rest))"

text \<open>\<^verbatim>\<open>df.loc[i]\<close> on the default index \<open>0, 1, ...\<close>: the row at position \<open>i\<close>, or \<^verbatim>\<open>KeyError\<close>.\<close>

definition loc :: "'a list \<Rightarrow> nat \<Rightarrow> py_error + 'a" where
  "loc df i = (if i < length df then Inr (df ! i) else Inl KeyError)"

definition top_regional :: "region_row list \<Rightarrow> py_error + region_row" where
  "top_regional df_reg =
     (case idxmax (map Total df_reg) of Inl e \<Rightarrow> Inl e | Inr i \<Rightarrow> loc df_reg i)"

section \<open>The Factor Manager view\<close>

subsection \<open>\<^verbatim>\<open>get_factors_data\<close>\<close>

text \<open>
  The column \<^verbatim>\<open>Factor\<close> mixes float literals and the integer 3235; pandas stores all of them
  as binary64.
\<close>

record factor_row =
  ID :: pystr
  Tipo :: pystr
  Nombre :: pystr
  Factor :: float64
  Unidad :: pystr
  Fuente :: pystr

definition get_factors_data :: "factor_row list" where
  "get_factors_data =
     [\<lparr>ID = str ''F-001'', Tipo = str ''Combustible L'' @ [0xED] @ str ''quido'',
       Nombre = str ''Di'' @ [0xE9] @ str ''sel (ACPM)'', Factor = fl64 1015 100,
       Unidad = str ''kgCO2e/gal'', Fuente = str ''UPME 2023''\<rparr>,
      \<lparr>ID = str ''F-002'', Tipo = str ''Combustible L'' @ [0xED] @ str ''quido'',
       Nombre = str ''Gasolina Corriente'', Factor = fl64 815 100,
       Unidad = str ''kgCO2e/gal'', Fuente = str ''UPME 2023''\<rparr>,
      \<lparr>ID = str ''F-003'', Tipo = str ''Energ'' @ [0xED] @ str ''a El'' @ [0xE9] @ str ''ctrica'',
       Nombre = str ''SIN Colombia'', Factor = fl64 136 1000,
       Unidad = str ''kgCO2/kWh'', Fuente = str ''UPME-FECOC''\<rparr>,
      \<lparr>ID = str ''F-004'', Tipo = str ''Refrigerante'',
       Nombre = str ''R-417B'', Factor = fl64 3235 1,
       Unidad = str ''kgCO2e/kg'', Fuente = str ''IPCC AR5''\<rparr>,
      \<lparr>ID = str ''F-005'', Tipo = str ''Material'',
       Nombre = str ''Papel Blanco'', Factor = fl64 184 100,
       Unidad = str ''kgCO2/kg'', Fuente = str ''Defra UK''\<rparr>]"

subsection \<open>Regular expressions\<close>

text \<open>
  \<^verbatim>\<open>Series.str.contains(pat, case=False)\<close> has \<^verbatim>\<open>regex=True\<close> by default: pandas compiles
  \<open>pat\<close> with \<^verbatim>\<open>re.compile(pat, re.IGNORECASE)\<close> and keeps the rows where \<^verbatim>\<open>search\<close> finds a
  match. The library is modelled on a fragment of the pattern language: literal characters,
  \<^verbatim>\<open>.\<close>, alternation \<^verbatim>\<open>|\<close>, groups \<^verbatim>\<open>( )\<close> and the greedy repeats \<^verbatim>\<open>*\<close>, \<^verbatim>\<open>+\<close>, \<^verbatim>\<open>?\<close>, over
  code points below 256. On this fragment the parser gives Python's answer, a pattern or one
  of four \<^verbatim>\<open>re.error\<close>s. For any other syntax it answers \<open>Not_modelled\<close>, which says nothing
  about what Python does.
\<close>

datatype regex =
    Null
  | Eps
  | Lit nat
  | Dot
  | Seq regex regex
  | Alt regex regex
  | Star regex

datatype re_error =
    Missing_paren       \<comment> \<open>\<^verbatim>\<open>missing ), unterminated subpattern\<close>\<close>
  | Unbalanced_paren    \<comment> \<open>\<^verbatim>\<open>unbalanced parenthesis\<close>\<close>
  | Nothing_to_repeat   \<comment> \<open>\<^verbatim>\<open>nothing to repeat\<close>\<close>
  | Multiple_repeat     \<comment> \<open>\<^verbatim>\<open>multiple repeat\<close>\<close>
  | Not_modelled

abbreviation ord :: "char \<Rightarrow> nat" where
  "ord c \<equiv> of_char c"

text \<open>
  Case folding under \<^verbatim>\<open>re.IGNORECASE\<close>, for code points below 256: the letters A to Z and
  U+00C0 to U+00DE, without the multiplication sign U+00D7, have a lower-case partner 32
  places higher. Two code points below 256 match exactly when they fold to the same one.
\<close>

definition lower_cp :: "nat \<Rightarrow> nat" where
  "lower_cp c = (if (65 \<le> c \<and> c \<le> 90) \<or> (192 \<le> c \<and> c \<le> 222 \<and> c \<noteq> 215) then c + 32 else c)"

subsubsection \<open>Parsing\<close>

text \<open>
  The parser reads the pattern from left to right. A frame holds the finished alternatives
  of the group being read and the items of its current alternative, both latest first; an
  item carries a flag telling whether it already has a repeat.
\<close>

type_synonym frame = "regex list \<times> (regex \<times> bool) list"

definition seq_of :: "(regex \<times> bool) list \<Rightarrow> regex" where
  "seq_of items = foldl (\<lambda>acc item. Seq (fst item) acc) Eps items"

definition group_of :: "frame \<Rightarrow> regex" where
  "group_of f = foldl (\<lambda>acc r. Alt r acc) (seq_of (snd f)) (fst f)"

definition repeat_of :: "nat \<Rightarrow> regex \<Rightarrow> regex" where
  "repeat_of c r =
     (if c = ord CHR ''*'' then Star r
      else if c = ord CHR ''+'' then Seq r (Star r)
      else Alt r Eps)"

fun parse :: "frame \<Rightarrow> frame list \<Rightarrow> pystr \<Rightarrow> re_error + regex" where
  "parse cur outer [] = (if outer = [] then Inr (group_of cur) else Inl Missing_paren)"
| "parse cur outer (c # cs) =
     (if c = ord CHR ''('' then
        (if cs \<noteq> [] \<and> hd cs = ord CHR ''?'' then Inl Not_modelled
         else parse ([], []) (cur # outer) cs)
      else if c = ord CHR '')'' then
        (case outer of
           [] \<Rightarrow> Inl Unbalanced_paren
         | f # fs \<Rightarrow> parse (fst f, (group_of cur, False) # snd f) fs cs)
      else if c = ord CHR ''|'' then parse (seq_of (snd cur) # fst cur, []) outer cs
      else if c = ord CHR ''*'' \<or> c = ord CHR ''+'' \<or> c = ord CHR ''?'' then
        (case snd cur of
           [] \<Rightarrow> Inl Nothing_to_repeat
         | item # items \<Rightarrow>
             if snd item then (if c = ord CHR ''*'' then Inl Multiple_repeat else Inl Not_modelled)
             else parse (fst cur, (repeat_of c (fst item), True) # items) outer cs)
      else if c = ord CHR ''.'' then parse (fst cur, (Dot, False) # snd cur) outer cs
      else if c = ord CHR ''['' \<or> c = ord CHR 0x5C \<or> c = ord CHR ''^''
              \<or> c = ord CHR ''$'' \<or> c = ord CHR ''{'' \<or> 256 \<le> c then Inl Not_modelled
      else parse (fst cur, (Lit c, False) # snd cur) outer cs)"

definition re_compile :: "pystr \<Rightarrow> re_error + regex" where
  "re_compile pat = parse ([], []) [] pat"

subsubsection \<open>Matching\<close>

fun nullable :: "regex \<Rightarrow> bool" where
  "nullable Null = False"
| "nullable Eps = True"
| "nullable (Lit d) = False"
| "nullable Dot = False"
| "nullable (Seq r s) = (nullable r \<and> nullable s)"
| "nullable (Alt r s) = (nullable r \<or> nullable s)"
| "nullable (Star r) = True"

text \<open>The patterns left to match after the code point \<open>c\<close>. A dot matches all but a newline.\<close>

fun deriv :: "nat \<Rightarrow> regex \<Rightarrow> regex" where
  "deriv c Null = Null"
| "deriv c Eps = Null"
| "deriv c (Lit d) = (if lower_cp c = lower_cp d then Eps else Null)"
| "deriv c Dot = (if c = 10 then Null else Eps)"
| "deriv c (Seq r s) =
     (if nullable r then Alt (Seq (deriv c r) s) (deriv c s) else Seq (deriv c r) s)"
| "deriv c (Alt r s) = Alt (deriv c r) (deriv c s)"
| "deriv c (Star r) = Seq (deriv c r) (Star r)"

text \<open>\<open>match_prefix r s\<close>: the pattern matches at the start of \<open>s\<close> (\<^verbatim>\<open>re.match\<close>).\<close>

fun match_prefix :: "regex \<Rightarrow> pystr \<Rightarrow> bool" where
  "match_prefix r [] = nullable r"
| "match_prefix r (c # s) = (nullable r \<or> match_prefix (deriv c r) s)"

text \<open>\<open>re_search r s\<close>: the pattern matches at some position of \<open>s\<close> (\<^verbatim>\<open>re.search\<close>).\<close>

fun re_search :: "regex \<Rightarrow> pystr \<Rightarrow> bool" where
  "re_search r [] = nullable r"
| "re_search r (c # s) = (match_prefix r (c # s) \<or> re_search r s)"

text \<open>
  The language of a pattern: the strings it matches from their first to their last code
  point. It is the yardstick for the two functions above (see \<open>re_search_iff\<close>).
\<close>

inductive_set star :: "pystr set \<Rightarrow> pystr set" for A :: "pystr set" where
  star_nil: "[] \<in> star A"
| star_app: "u \<in> A \<Longrightarrow> v \<in> star A \<Longrightarrow> u @ v \<in> star A"

fun lang :: "regex \<Rightarrow> pystr set" where
  "lang Null = {}"
| "lang Eps = {[]}"
| "lang (Lit d) = {[c] | c. lower_cp c = lower_cp d}"
| "lang Dot = {[c] | c. c \<noteq> 10}"
| "lang (Seq r s) = {u @ v | u v. u \<in> lang r \<and> v \<in> lang s}"
| "lang (Alt r s) = lang r \<union> lang s"
| "lang (Star r) = star (lang r)"

definition str_contains :: "pystr \<Rightarrow> re_error + (pystr \<Rightarrow> bool)" where
  "str_contains pat = (case re_compile pat of Inl e \<Rightarrow> Inl e | Inr r \<Rightarrow> Inr (re_search r))"

subsection \<open>The view\<close>

text \<open>
  The view shows the frame it returns here. \<open>contains\<close> stands for
  \<^verbatim>\<open>df_factors['Nombre'].str.contains(filtro, case=False)\<close>: it raises, or gives the test applied
  to each name. Indexing a frame with the resulting mask builds a new frame of the rows
  whose test holds, in their order. This first definition gives what the view shows; the
  frames as objects of a store follow below.
\<close>

definition Gestor_de_Factores_with ::
    "(pystr \<Rightarrow> 'e + (pystr \<Rightarrow> bool)) \<Rightarrow> pystr \<Rightarrow> 'e + factor_row list" where
  "Gestor_de_Factores_with contains filtro =
     (let df_factors = get_factors_data
      in if filtro \<noteq> [] then
           (case contains filtro of
              Inl e \<Rightarrow> Inl e
            | Inr keep \<Rightarrow> Inr (filter (\<lambda>row. keep (Nombre row)) df_factors))
         else Inr df_factors)"

definition Gestor_de_Factores :: "pystr \<Rightarrow> re_error + factor_row list" where
  "Gestor_de_Factores filtro = Gestor_de_Factores_with str_contains filtro"

subsection \<open>The view over a store of frames\<close>

text \<open>
  A data frame is an object. \<^verbatim>\<open>get_factors_data()\<close> builds a new one on each call and the name
  \<^verbatim>\<open>df_factors\<close> refers to it; \<^verbatim>\<open>df_factors[...]\<close> with a mask builds another one from the rows
  of the first, and the name is bound to it. The store maps the address of a frame to its
  rows; a new frame is made at the next free address.
\<close>

record store =
  next_addr :: nat
  frames :: "nat \<Rightarrow> factor_row list option"

definition new_frame :: "factor_row list \<Rightarrow> store \<Rightarrow> nat \<times> store" where
  "new_frame rows h =
     (next_addr h, h\<lparr>next_addr := Suc (next_addr h), frames := (frames h)(next_addr h \<mapsto> rows)\<rparr>)"

definition get_factors_data_call :: "store \<Rightarrow> nat \<times> store" where
  "get_factors_data_call h = new_frame get_factors_data h"

definition rows_at :: "store \<Rightarrow> nat \<Rightarrow> factor_row list" where
  "rows_at h a = (case frames h a of Some rows \<Rightarrow> rows | None \<Rightarrow> [])"

text \<open>\<^verbatim>\<open>df[mask]\<close>: the frame \<open>df\<close> is read, and its rows whose test holds go into a new frame.\<close>

definition mask_index :: "nat \<Rightarrow> (factor_row \<Rightarrow> bool) \<Rightarrow> store \<Rightarrow> nat \<times> store" where
  "mask_index df keep h = new_frame (filter keep (rows_at h df)) h"

text \<open>
  A run of the view gives the rows handed to \<^verbatim>\<open>st.dataframe\<close>, the address of the frame that
  \<^verbatim>\<open>get_factors_data\<close> built, the address the name \<^verbatim>\<open>df_factors\<close> refers to at the end, and the
  store at the end.
\<close>

record factores_run =
  run_shown :: "factor_row list"
  run_table :: nat
  run_df_factors :: nat
  run_store :: store

definition Gestor_de_Factores_run ::
    "(pystr \<Rightarrow> 'e + (pystr \<Rightarrow> bool)) \<Rightarrow> pystr \<Rightarrow> store \<Rightarrow> 'e + factores_run" where
  "Gestor_de_Factores_run contains filtro h =
     (let (t, h1) = get_factors_data_call h
      in if filtro \<noteq> [] then
           (case contains filtro of
              Inl e \<Rightarrow> Inl e
            | Inr keep \<Rightarrow>
                let (d, h2) = mask_index t (\<lambda>row. keep (Nombre row)) h1
                in Inr \<lparr>run_shown = rows_at h2 d, run_table = t,
                        run_df_factors = d, run_store = h2\<rparr>)
         else Inr \<lparr>run_shown = rows_at h1 t, run_table = t,
                   run_df_factors = t, run_store = h1\<rparr>)"

text \<open>
  The filter as the specification words it: the rows whose name contains the filter as a
  literal substring, letters compared without case; it never fails.
\<close>

definition spec_contains :: "pystr \<Rightarrow> pystr \<Rightarrow> bool" where
  "spec_contains pat s = list_ex (\<lambda>t. map lower_cp t = map lower_cp pat) (sublists s)"

definition spec_factor_filter :: "pystr \<Rightarrow> factor_row list" where
  "spec_factor_filter filtro = filter (\<lambda>row. spec_contains filtro (Nombre row)) get_factors_data"

section \<open>The Decision Tree view\<close>

subsection \<open>Start of the process\<close>

text \<open>
  \<^verbatim>\<open>import graphviz\<close> either succeeds or raises \<^verbatim>\<open>ImportError\<close>, which sets the flag
  \<^verbatim>\<open>has_graphviz\<close> for the life of the process. A session also records the widgets put on
  the page and every call made to the diagram library, in order.
\<close>

datatype import_result = Imported | Import_error

datatype gv_call =
    Digraph
  | Attr "(pystr \<times> pystr) list"
  | Node pystr pystr "(pystr \<times> pystr) list"
  | Edge pystr pystr "(pystr \<times> pystr) list"
  | Graphviz_chart

datatype widget =
    Markdown pystr
  | Write pystr
  | Warning pystr
  | Info pystr
  | Code pystr
  | Chart "gv_call list"
  | Columns nat
  | Success nat pystr

record session =
  has_graphviz :: bool
  page :: "widget list"
  graphviz_calls :: "gv_call list"

definition startup :: "import_result \<Rightarrow> session" where
  "startup r = \<lparr>has_graphviz = (r = Imported), page = [], graphviz_calls = []\<rparr>"

definition emit :: "widget list \<Rightarrow> session \<Rightarrow> session" where
  "emit ws s = s\<lparr>page := page s @ ws\<rparr>"

subsection \<open>The texts of the view\<close>

definition titulo :: "pystr" where
  "titulo =
     str ''### '' @ [0xC1] @ str ''rbol de Decisi'' @ [0xF3] @ str ''n L'' @ [0xF3] @ str ''gica (UX)''"

definition subtitulo :: "pystr" where
  "subtitulo =
     str ''Diagrama de flujo l'' @ [0xF3] @ str ''gico para el operador.''"

definition aviso_render :: "pystr" where
  "aviso_render =
     str ''El m'' @ [0xF3] @ str ''dulo de gr'' @ [0xE1] @ str ''ficos no pudo renderizar el diagrama.''"

definition flujo_resumen :: "pystr" where
  "flujo_resumen =
     str ''Flujo: Propiedad -> S'' @ [0xED] @ str '' (Alcance 1) / No (Alcance 3) -> Veh'' @ [0xED] @ str ''culo -> Combustible.''"

definition aviso_no_detectada :: "pystr" where
  "aviso_no_detectada =
     [0x26A0, 0xFE0F] @ str '' Librer'' @ [0xED] @ str ''a Graphviz no detectada.''"

definition aviso_simplificado :: "pystr" where
  "aviso_simplificado =
     str ''El sistema funciona correctamente, pero la visualizaci'' @ [0xF3] @ str ''n del '' @ [0xE1] @ str ''rbol l'' @ [0xF3] @ str ''gico se ha simplificado a texto.''"

definition flujo_logico :: "pystr" where
  "flujo_logico =
     str ''Flujo L'' @ [0xF3] @ str ''gico:'' @ [0xA] @ str ''1. '' @ [0xBF] @ str ''Propiedad Massy? -> S'' @ [0xCD] @ str '' (A1) / NO (A3)'' @ [0xA] @ str ''2. '' @ [0xBF] @ str ''Tipo Veh'' @ [0xED] @ str ''culo? -> Configuraci'' @ [0xF3] @ str ''n Factor'' @ [0xA] @ str ''3. '' @ [0xBF] @ str ''Combustible? -> Di'' @ [0xE9] @ str ''sel/Gasolina''"

definition exitos :: "widget list" where
  "exitos =
     [Columns 3,
      Success 1 ([0x2705] @ str '' **Prevenci'' @ [0xF3] @ str ''n de Error**''),
      Success 2 ([0x2705] @ str '' **C'' @ [0xE1] @ str ''lculo Autom'' @ [0xE1] @ str ''tico**''),
      Success 3 ([0x2705] @ str '' **Auditor'' @ [0xED] @ str ''a**'')]"

subsection \<open>The statements of the \<^verbatim>\<open>try\<close> block\<close>

text \<open>The fifteen calls that build the graph of seven nodes and six edges.\<close>

definition build_calls :: "gv_call list" where
  "build_calls =
     [Digraph,
      Attr [(str ''rankdir'', str ''TB'')],
      Node (str ''A'') ([0xBF] @ str ''Es propiedad de Massy Energy?'')
        [(str ''shape'', str ''box''), (str ''style'', str ''filled''), (str ''fillcolor'', str ''#002664''), (str ''fontcolor'', str ''white'')],
      Node (str ''B'') (str ''SI: Alcance 1 (Directo)'')
        [(str ''shape'', str ''ellipse''), (str ''color'', str ''green'')],
      Node (str ''C'') (str ''NO: Alcance 3 (Indirecto)'')
        [(str ''shape'', str ''ellipse''), (str ''color'', str ''gray'')],
      Node (str ''D'') ([0xBF] @ str ''Qu'' @ [0xE9] @ str '' tipo de veh'' @ [0xED] @ str ''culo es?'')
        [(str ''shape'', str ''box'')],
      Node (str ''E'') ([0xBF] @ str ''Qui'' @ [0xE9] @ str ''n paga el combustible?'')
        [(str ''shape'', str ''box'')],
      Node (str ''F'') (str ''Selecci'' @ [0xF3] @ str ''n: Di'' @ [0xE9] @ str ''sel/Gasolina'')
        [(str ''shape'', str ''note''), (str ''style'', str ''filled''), (str ''fillcolor'', str ''#D9232D''), (str ''fontcolor'', str ''white'')],
      Node (str ''G'') (str ''Selecci'' @ [0xF3] @ str ''n: Cliente/Proveedor'')
        [(str ''shape'', str ''note'')],
      Edge (str ''A'') (str ''B'') [(str ''label'', str ''Si'')],
      Edge (str ''A'') (str ''C'') [(str ''label'', str ''No'')],
      Edge (str ''B'') (str ''D'') [],
      Edge (str ''C'') (str ''E'') [],
      Edge (str ''D'') (str ''F'') [],
      Edge (str ''E'') (str ''G'') []]"

definition diagram_calls :: "gv_call list" where
  "diagram_calls = build_calls @ [Graphviz_chart]"

text \<open>
  What a call raises: an instance of \<^verbatim>\<open>Exception\<close>, which is every runtime error, or one of the
  exceptions that derive from \<^verbatim>\<open>BaseException\<close> only (\<^verbatim>\<open>KeyboardInterrupt\<close>, \<^verbatim>\<open>SystemExit\<close>).
\<close>

datatype raised = Exception | Base_exception

text \<open>
  \<open>try_block faults k graph calls s\<close> runs the calls, the first being the \<open>k\<close>-th statement of
  the block. \<open>faults k\<close> tells whether that statement raises, which ends the block. A call
  is logged when it is made; \<^verbatim>\<open>st.graphviz_chart\<close> puts the graph built so far on the page.
\<close>

fun try_block ::
    "(nat \<Rightarrow> raised option) \<Rightarrow> nat \<Rightarrow> gv_call list \<Rightarrow> gv_call list \<Rightarrow> session
       \<Rightarrow> raised option \<times> session" where
  "try_block faults k graph [] s = (None, s)"
| "try_block faults k graph (c # cs) s =
     (let s' = s\<lparr>graphviz_calls := graphviz_calls s @ [c]\<rparr>
      in case faults k of
           Some e \<Rightarrow> (Some e, s')
         | None \<Rightarrow>
             if c = Graphviz_chart then try_block faults (Suc k) graph cs (emit [Chart graph] s')
             else try_block faults (Suc k) (graph @ [c]) cs s')"

subsection \<open>The view\<close>

text \<open>\<^verbatim>\<open>except Exception\<close> handles an \<open>Exception\<close>; anything else leaves the view.\<close>

definition Ingenieria_de_Preguntas ::
    "(nat \<Rightarrow> raised option) \<Rightarrow> session \<Rightarrow> raised + session" where
  "Ingenieria_de_Preguntas faults s =
     (let s1 = emit [Markdown titulo, Write subtitulo] s;
          r = (if has_graphviz s1 then
                 (case try_block faults 0 [] diagram_calls s1 of
                    (None, s2) \<Rightarrow> Inr s2
                  | (Some Exception, s2) \<Rightarrow>
                      Inr (emit [Warning aviso_render, Info flujo_resumen] s2)
                  | (Some Base_exception, s2) \<Rightarrow> Inl Base_exception)
               else Inr (emit [Warning aviso_no_detectada, Info aviso_simplificado,
                               Code flujo_logico] s1))
      in case r of Inl e \<Rightarrow> Inl e | Inr s3 \<Rightarrow> Inr (emit exitos s3))"

section \<open>Derived metrics\<close>

subsection \<open>The tables in binary64\<close>

text \<open>
  Evaluating the model gives, for every literal and every product, the mantissa and exponent
  that Python's \<^verbatim>\<open>float.hex\<close> prints for the same expression.
\<close>

lemma get_regional_data_binary64:
  "get_regional_data =
     [\<lparr>Regional = str ''GRB'', Total = Float64 0x10000000000000 (- 53),
       Alcance_1 = Float64 0x18000000000000 (- 54), Alcance_2 = Float64 0x13333333333333 (- 56),
       Alcance_3 = Float64 0x1999999999999A (- 57), Arboles = 20\<rparr>,
      \<lparr>Regional = str ''CATENARE'', Total = Float64 0x1C800000000000 (- 49),
       Alcance_1 = Float64 0x15600000000000 (- 49), Alcance_2 = Float64 0x11199999999999 (- 51),
       Alcance_3 = Float64 0x16CCCCCCCCCCCD (- 52), Arboles = 570\<rparr>,
      \<lparr>Regional = str ''VRC'', Total = Float64 0x173AE147AE147B (- 47),
       Alcance_1 = Float64 0x116C28F5C28F5C (- 47), Alcance_2 = Float64 0x1BE04189374BC7 (- 50),
       Alcance_3 = Float64 0x1295810624DD2F (- 50), Arboles = 1858\<rparr>,
      \<lparr>Regional = str ''GGS'', Total = Float64 0x1C570A3D70A3D7 (- 48),
       Alcance_1 = Float64 0x154147AE147AE1 (- 48), Alcance_2 = Float64 0x11010624DD2F1A (- 50),
       Alcance_3 = Float64 0x16AC083126E979 (- 51), Arboles = 1133\<rparr>,
      \<lparr>Regional = str ''VRO'', Total = Float64 0x1227AE147AE148 (- 47),
       Alcance_1 = Float64 0x1B3B851EB851EC (- 48), Alcance_2 = Float64 0x15C9374BC6A7F0 (- 50),
       Alcance_3 = Float64 0x1D0C49BA5E3540 (- 51), Arboles = 1452\<rparr>,
      \<lparr>Regional = str ''GOR'', Total = Float64 0x1A51EB851EB852 (- 49),
       Alcance_1 = Float64 0x13BD70A3D70A3E (- 49), Alcance_2 = Float64 0x1F95810624DD2F (- 52),
       Alcance_3 = Float64 0x150E5604189375 (- 52), Arboles = 526\<rparr>,
      \<lparr>Regional = str ''VAO'', Total = Float64 0x1223D70A3D70A4 (- 49),
       Alcance_1 = Float64 0x1B35C28F5C28F6 (- 50), Alcance_2 = Float64 0x15C49BA5E353F8 (- 52),
       Alcance_3 = Float64 0x1D0624DD2F1AA0 (- 53), Arboles = 362\<rparr>,
      \<lparr>Regional = str ''CEDI'', Total = Float64 0x1851EB851EB852 (- 54),
       Alcance_1 = Float64 0x123D70A3D70A3E (- 54), Alcance_2 = Float64 0x1D2F1A9FBE76C8 (- 57),
       Alcance_3 = Float64 0x1374BC6A7EF9DC (- 57), Arboles = 15\<rparr>]"
  by code_simp

lemma get_general_indicators_binary64:
  "get_general_indicators =
     \<lparr>Huella_Total = Float64 0x128F0A3D70A3D7 (- 45),
      Meta_Reduccion = Float64 0x11A1999999999A (- 45),
      Alcance_1_pct = 75, Alcance_2_pct = 15, Alcance_3_pct = 10,
      Arboles_Totales = 5938\<rparr>"
  by code_simp

lemma scope_sums_binary64:
  "map (\<lambda>r. (fadd (fadd (Alcance_1 r) (Alcance_2 r)) (Alcance_3 r), Total r)) get_regional_data =
     [(Float64 0x10000000000000 (- 53), Float64 0x10000000000000 (- 53)),
      (Float64 0x1C800000000000 (- 49), Float64 0x1C800000000000 (- 49)),
      (Float64 0x173AE147AE147B (- 47), Float64 0x173AE147AE147B (- 47)),
      (Float64 0x1C570A3D70A3D7 (- 48), Float64 0x1C570A3D70A3D7 (- 48)),
      (Float64 0x1227AE147AE148 (- 47), Float64 0x1227AE147AE148 (- 47)),
      (Float64 0x1A51EB851EB853 (- 49), Float64 0x1A51EB851EB852 (- 49)),
      (Float64 0x1223D70A3D70A4 (- 49), Float64 0x1223D70A3D70A4 (- 49)),
      (Float64 0x1851EB851EB852 (- 54), Float64 0x1851EB851EB852 (- 54))]"
  by code_simp

lemma literal_46_46: "fl64 4646 100 = Float64 0x173AE147AE147B (- 47)"
  by code_simp

lemma literal_148_47: "fl64 14847 100 = Float64 0x128F0A3D70A3D7 (- 45)"
  by code_simp

lemma sum_of_totals_binary64:
  "foldl fadd (fl64 0 1) (map Total get_regional_data) = Float64 0x128F0A3D70A3D7 (- 45)"
  by code_simp

subsection \<open>Tree equivalents\<close>

text \<open>
  Claim C2. For every region record the tree equivalent is the floor of the stored total times
  40, the product taken exactly: rounding the product to binary64 before truncating moves no
  value across an integer. The record whose total is the literal 46.46 has 1858 trees, and the
  general indicator is \<open>\<lfloor>148.47 * 40\<rfloor> = 5938\<close>, for the decimal 148.47 as well as for the
  float that stores it.
\<close>

theorem tree_equivalent_floor:
  "(\<forall>r \<in> set get_regional_data.
      Arboles r = \<lfloor>valof (Total r) * 40\<rfloor> \<and>
      (Total r = fl64 4646 100 \<longrightarrow> Arboles r = 1858)) \<and>
   Arboles_Totales get_general_indicators
     = \<lfloor>valof (Huella_Total get_general_indicators) * 40\<rfloor> \<and>
   \<lfloor>(14847 / 100 :: rat) * 40\<rfloor> = 5938 \<and>
   Arboles_Totales get_general_indicators = 5938"
  unfolding get_regional_data_binary64 get_general_indicators_binary64 literal_46_46
  by (simp add: valof_def pow2_def floor_eq_iff)

theorem tree_equivalent_floor_witness:
  "get_regional_data ! 2 \<in> set get_regional_data \<and>
   Total (get_regional_data ! 2) = fl64 4646 100 \<and>
   Arboles (get_regional_data ! 2) = 1858 \<and>
   \<lfloor>valof (Total (get_regional_data ! 2)) * 40\<rfloor> = 1858"
proof -
  have m: "get_regional_data ! 2 \<in> set get_regional_data"
    by (simp add: get_regional_data_binary64)
  have t: "Total (get_regional_data ! 2) = fl64 4646 100"
    by (simp add: get_regional_data_binary64 literal_46_46)
  from tree_equivalent_floor m t show ?thesis
    by metis
qed

subsection \<open>Scope split\<close>

text \<open>
  Claim C3, as amended. For every region record each scope column is the product of the total
  with 0.75, 0.15 or 0.10 rounded to binary64: it is the float product of the stored total
  with the float of the literal, and it differs from the exact product of the stored total
  with the decimal ratio by at most that product divided by \<open>2 ^ 52\<close>. The three columns add
  up to the total within \<open>10 ^ -6\<close>, both when added exactly and when added as floats from left
  to right.
\<close>

theorem scope_split_rounded:
  "\<forall>r \<in> set get_regional_data.
     Alcance_1 r = fmul (Total r) (fl64 75 100) \<and>
     Alcance_2 r = fmul (Total r) (fl64 15 100) \<and>
     Alcance_3 r = fmul (Total r) (fl64 10 100) \<and>
     \<bar>valof (Alcance_1 r) - valof (Total r) * (75 / 100)\<bar>
       \<le> valof (Total r) * (75 / 100) / 2 ^ 52 \<and>
     \<bar>valof (Alcance_2 r) - valof (Total r) * (15 / 100)\<bar>
       \<le> valof (Total r) * (15 / 100) / 2 ^ 52 \<and>
     \<bar>valof (Alcance_3 r) - valof (Total r) * (10 / 100)\<bar>
       \<le> valof (Total r) * (10 / 100) / 2 ^ 52 \<and>
     \<bar>valof (Alcance_1 r) + valof (Alcance_2 r) + valof (Alcance_3 r) - valof (Total r)\<bar>
       \<le> 1 / 10 ^ 6 \<and>
     \<bar>valof (fadd (fadd (Alcance_1 r) (Alcance_2 r)) (Alcance_3 r)) - valof (Total r)\<bar>
       \<le> 1 / 10 ^ 6"
proof -
  have prod: "\<forall>r \<in> set get_regional_data.
     Alcance_1 r = fmul (Total r) (fl64 75 100) \<and>
     Alcance_2 r = fmul (Total r) (fl64 15 100) \<and>
     Alcance_3 r = fmul (Total r) (fl64 10 100)"
    by (auto simp: get_regional_data_def)
  have exact: "\<forall>r \<in> set get_regional_data.
     \<bar>valof (Alcance_1 r) - valof (Total r) * (75 / 100)\<bar>
       \<le> valof (Total r) * (75 / 100) / 2 ^ 52 \<and>
     \<bar>valof (Alcance_2 r) - valof (Total r) * (15 / 100)\<bar>
       \<le> valof (Total r) * (15 / 100) / 2 ^ 52 \<and>
     \<bar>valof (Alcance_3 r) - valof (Total r) * (10 / 100)\<bar>
       \<le> valof (Total r) * (10 / 100) / 2 ^ 52 \<and>
     \<bar>valof (Alcance_1 r) + valof (Alcance_2 r) + valof (Alcance_3 r) - valof (Total r)\<bar>
       \<le> 1 / 10 ^ 6"
    unfolding get_regional_data_binary64 by (simp add: valof_def pow2_def)
  have "\<forall>p \<in> set (map (\<lambda>r. (fadd (fadd (Alcance_1 r) (Alcance_2 r)) (Alcance_3 r), Total r))
                        get_regional_data).
          \<bar>valof (fst p) - valof (snd p)\<bar> \<le> 1 / 10 ^ 6"
    unfolding scope_sums_binary64 by (simp add: valof_def pow2_def)
  then have "\<forall>r \<in> set get_regional_data.
          \<bar>valof (fadd (fadd (Alcance_1 r) (Alcance_2 r)) (Alcance_3 r)) - valof (Total r)\<bar>
            \<le> 1 / 10 ^ 6"
    by simp
  with prod exact show ?thesis
    by blast
qed

theorem scope_split_rounded_witness:
  "get_regional_data ! 5 \<in> set get_regional_data \<and>
   Alcance_1 (get_regional_data ! 5) = fmul (Total (get_regional_data ! 5)) (fl64 75 100) \<and>
   \<bar>valof (Alcance_1 (get_regional_data ! 5)) - valof (Total (get_regional_data ! 5)) * (75 / 100)\<bar>
     \<le> valof (Total (get_regional_data ! 5)) * (75 / 100) / 2 ^ 52 \<and>
   \<bar>valof (fadd (fadd (Alcance_1 (get_regional_data ! 5)) (Alcance_2 (get_regional_data ! 5)))
              (Alcance_3 (get_regional_data ! 5)))
     - valof (Total (get_regional_data ! 5))\<bar> \<le> 1 / 10 ^ 6"
proof -
  have m: "get_regional_data ! 5 \<in> set get_regional_data"
    by (simp add: get_regional_data_binary64)
  from scope_split_rounded m show ?thesis
    by blast
qed

text \<open>
  The claim as first stated, with the three products exact, fails: in the row VRC, whose total
  is the float of 46.46, the first scope column is not three quarters of the stored total,
  because the product is rounded. Of the eight rows only VRO and VAO have all three columns
  exact.
\<close>

theorem scope_split_not_exact:
  "get_regional_data ! 2 \<in> set get_regional_data \<and>
   Regional (get_regional_data ! 2) = str ''VRC'' \<and>
   Total (get_regional_data ! 2) = fl64 4646 100 \<and>
   valof (Alcance_1 (get_regional_data ! 2)) \<noteq> valof (Total (get_regional_data ! 2)) * (75 / 100)"
  unfolding literal_46_46 by (simp add: get_regional_data_binary64 valof_def pow2_def)

lemma scope_split_exact_rows:
  "map (\<lambda>r. (Regional r,
              valof (Alcance_1 r) = valof (Total r) * (75 / 100),
              valof (Alcance_2 r) = valof (Total r) * (15 / 100),
              valof (Alcance_3 r) = valof (Total r) * (10 / 100))) get_regional_data =
     [(str ''GRB'', True, False, False), (str ''CATENARE'', True, False, False),
      (str ''VRC'', False, False, False), (str ''GGS'', False, False, False),
      (str ''VRO'', True, True, True), (str ''GOR'', False, False, False),
      (str ''VAO'', True, True, True), (str ''CEDI'', False, False, False)]"
  unfolding get_regional_data_binary64 by (simp add: valof_def pow2_def)

subsection \<open>Total footprint\<close>

text \<open>
  Claim C8. The general indicator \<^verbatim>\<open>Huella Total\<close> is the literal 148.47, which is the sum of
  the eight regional totals: as decimal numbers, and as the binary64 sum of the eight floats
  added left to right.
\<close>

theorem total_footprint_is_sum:
  "Huella_Total get_general_indicators = fl64 14847 100 \<and>
   (50 / 100 + 1425 / 100 + 4646 / 100 + 2834 / 100
      + 3631 / 100 + 1316 / 100 + 907 / 100 + 38 / 100 :: rat) = 14847 / 100 \<and>
   foldl fadd (fl64 0 1) (map Total get_regional_data) = Huella_Total get_general_indicators"
  unfolding sum_of_totals_binary64 literal_148_47
  by (simp add: get_general_indicators_binary64)

section \<open>Ordering the regions\<close>

subsection \<open>Comparison of floats\<close>

lemma pow2_powi: "pow2 e = 2 powi e"
  by (simp add: pow2_def power_int_def power_inverse [symmetric] inverse_eq_divide power_one_over)

lemma pow2_pos: "0 < pow2 e"
  by (simp add: pow2_powi)

lemma pow2_split:
  assumes "e \<le> a"
  shows "pow2 a = 2 ^ nat (a - e) * pow2 e"
proof -
  define n where "n = nat (a - e)"
  have a: "a = int n + e"
    using assms by (simp add: n_def)
  have "(2::rat) powi (int n + e) = 2 powi int n * 2 powi e"
    by (rule power_int_add) simp
  then have "(2::rat) powi (int n + e) = 2 ^ n * 2 powi e"
    by simp
  then show ?thesis
    unfolding pow2_powi n_def [symmetric] by (simp add: a)
qed

lemma valof_align:
  "e \<le> expo a \<Longrightarrow> valof a = of_int (mant a * 2 ^ nat (expo a - e)) * pow2 e"
  by (simp add: valof_def pow2_split [of e "expo a"])

lemma fle_iff: "fle a b \<longleftrightarrow> valof a \<le> valof b"
proof -
  define e where "e = min (expo a) (expo b)"
  have a: "valof a = of_int (mant a * 2 ^ nat (expo a - e)) * pow2 e"
    by (rule valof_align) (simp add: e_def)
  have b: "valof b = of_int (mant b * 2 ^ nat (expo b - e)) * pow2 e"
    by (rule valof_align) (simp add: e_def)
  have "valof a \<le> valof b \<longleftrightarrow>
          (of_int (mant a * 2 ^ nat (expo a - e)) :: rat) \<le> of_int (mant b * 2 ^ nat (expo b - e))"
    unfolding a b using pow2_pos [of e] by (simp only: mult_le_cancel_right_pos)
  also have "\<dots> \<longleftrightarrow> mant a * 2 ^ nat (expo a - e) \<le> mant b * 2 ^ nat (expo b - e)"
    by (simp only: of_int_le_iff)
  finally show ?thesis
    by (simp add: fle_def e_def Let_def)
qed

subsection \<open>The descending sort\<close>

lemma mset_insort_Total: "mset (insort_Total x xs) = add_mset x (mset xs)"
  by (induction xs) auto

lemma set_insort_Total: "set (insort_Total x xs) = insert x (set xs)"
  by (induction xs) auto

lemma sorted_insort_Total:
  "sorted_wrt (\<lambda>a b. fle (Total a) (Total b)) xs
   \<Longrightarrow> sorted_wrt (\<lambda>a b. fle (Total a) (Total b)) (insort_Total x xs)"
  by (induction xs) (auto simp: set_insort_Total fle_iff)

lemma mset_foldr_insort_Total: "mset (foldr insort_Total xs []) = mset xs"
  by (induction xs) (auto simp: mset_insort_Total)

lemma sorted_foldr_insort_Total:
  "sorted_wrt (\<lambda>a b. fle (Total a) (Total b)) (foldr insort_Total xs [])"
  by (induction xs) (auto simp: sorted_insort_Total)

lemma mset_sort_values_Total_desc: "mset (sort_values_Total_desc df) = mset df"
  by (simp add: sort_values_Total_desc_def mset_foldr_insort_Total)

lemma sorted_sort_values_Total_desc:
  "sorted_wrt (\<lambda>a b. fle (Total b) (Total a)) (sort_values_Total_desc df)"
  by (simp add: sort_values_Total_desc_def sorted_wrt_rev sorted_foldr_insort_Total)

text \<open>A frame whose totals are pairwise different has one descending order only.\<close>

lemma descending_order_unique:
  assumes ys: "mset ys = mset xs" "sorted_wrt (\<lambda>a b. fle (Total b) (Total a)) ys"
      and zs: "mset zs = mset xs" "sorted_wrt (\<lambda>a b. fle (Total b) (Total a)) zs"
      and keys: "distinct (map (\<lambda>r. valof (Total r)) xs)"
  shows "ys = zs"
proof -
  let ?k = "\<lambda>r. valof (Total r)"
  have sorted_rev: "sorted (rev (map ?k us))"
    if "sorted_wrt (\<lambda>a b. fle (Total b) (Total a)) us" for us
    using that by (simp add: sorted_wrt_rev sorted_wrt_map fle_iff flip: rev_map)
  have msets: "mset (map ?k ys) = mset (map ?k xs)" "mset (map ?k zs) = mset (map ?k xs)"
    using ys(1) zs(1) by simp_all
  have dist: "distinct (map ?k ys)" "distinct (map ?k zs)"
    using msets keys mset_eq_imp_distinct_iff by blast+
  have sets: "set (map ?k ys) = set (map ?k zs)"
    using msets by (metis mset_eq_setD)
  have "rev (map ?k ys) = rev (map ?k zs)"
    using sorted_rev [OF ys(2)] sorted_rev [OF zs(2)] dist sets
    by (intro sorted_distinct_set_unique) simp_all
  then have eq: "map ?k ys = map ?k zs"
    by simp
  have "inj_on ?k (set xs)"
    using keys by (simp add: distinct_map)
  moreover have "set ys = set xs" "set zs = set xs"
    using ys(1) zs(1) by (metis mset_eq_setD)+
  ultimately have "inj_on ?k (set ys \<union> set zs)"
    by simp
  with eq show ?thesis
    by (simp add: inj_on_map_eq_map)
qed

lemma regional_totals_distinct: "distinct (map (\<lambda>r. valof (Total r)) get_regional_data)"
  unfolding get_regional_data_binary64 by (simp add: valof_def pow2_def)


lemma sort_values_Total_desc_regional:
  "sort_values_Total_desc get_regional_data =
     [get_regional_data ! 2, get_regional_data ! 4, get_regional_data ! 3, get_regional_data ! 1,
      get_regional_data ! 5, get_regional_data ! 6, get_regional_data ! 0, get_regional_data ! 7]"
  unfolding get_regional_data_binary64 by code_simp

lemma literal_totals:
  "fl64 50 100 = Float64 0x10000000000000 (- 53)"
  "fl64 1425 100 = Float64 0x1C800000000000 (- 49)"
  "fl64 2834 100 = Float64 0x1C570A3D70A3D7 (- 48)"
  "fl64 3631 100 = Float64 0x1227AE147AE148 (- 47)"
  "fl64 1316 100 = Float64 0x1A51EB851EB852 (- 49)"
  "fl64 907 100 = Float64 0x1223D70A3D70A4 (- 49)"
  "fl64 38 100 = Float64 0x1851EB851EB852 (- 54)"
  by code_simp+


text \<open>
  Claim C4. Sorting the eight region records by \<^verbatim>\<open>Total\<close>, descending, gives the order
  VRC (46.46), VRO (36.31), GGS (28.34), CATENARE (14.25), GOR (13.16), VAO (9.07),
  GRB (0.50), CEDI (0.38). The order is that of every descending arrangement of the table,
  whatever algorithm produced it.
\<close>

theorem sorted_regions_order:
  "map (\<lambda>r. (Regional r, Total r)) (sort_values_Total_desc get_regional_data) =
     [(str ''VRC'', fl64 4646 100), (str ''VRO'', fl64 3631 100), (str ''GGS'', fl64 2834 100),
      (str ''CATENARE'', fl64 1425 100), (str ''GOR'', fl64 1316 100), (str ''VAO'', fl64 907 100),
      (str ''GRB'', fl64 50 100), (str ''CEDI'', fl64 38 100)] \<and>
   (\<forall>ys. mset ys = mset get_regional_data \<and> sorted_wrt (\<lambda>a b. fle (Total b) (Total a)) ys
      \<longrightarrow> ys = sort_values_Total_desc get_regional_data)"
proof
  show "map (\<lambda>r. (Regional r, Total r)) (sort_values_Total_desc get_regional_data) =
     [(str ''VRC'', fl64 4646 100), (str ''VRO'', fl64 3631 100), (str ''GGS'', fl64 2834 100),
      (str ''CATENARE'', fl64 1425 100), (str ''GOR'', fl64 1316 100), (str ''VAO'', fl64 907 100),
      (str ''GRB'', fl64 50 100), (str ''CEDI'', fl64 38 100)]"
    unfolding sort_values_Total_desc_regional literal_totals literal_46_46
    by (simp add: get_regional_data_binary64)
  show "\<forall>ys. mset ys = mset get_regional_data \<and> sorted_wrt (\<lambda>a b. fle (Total b) (Total a)) ys
      \<longrightarrow> ys = sort_values_Total_desc get_regional_data"
    using descending_order_unique [OF _ _ mset_sort_values_Total_desc
        sorted_sort_values_Total_desc regional_totals_distinct]
    by blast
qed

theorem sorted_regions_order_witness:
  "mset [get_regional_data ! 2, get_regional_data ! 4, get_regional_data ! 3,
         get_regional_data ! 1, get_regional_data ! 5, get_regional_data ! 6,
         get_regional_data ! 0, get_regional_data ! 7] = mset get_regional_data \<and>
   sorted_wrt (\<lambda>a b. fle (Total b) (Total a))
        [get_regional_data ! 2, get_regional_data ! 4, get_regional_data ! 3,
         get_regional_data ! 1, get_regional_data ! 5, get_regional_data ! 6,
         get_regional_data ! 0, get_regional_data ! 7] \<and>
   map Regional
        [get_regional_data ! 2, get_regional_data ! 4, get_regional_data ! 3,
         get_regional_data ! 1, get_regional_data ! 5, get_regional_data ! 6,
         get_regional_data ! 0, get_regional_data ! 7] =
     [str ''VRC'', str ''VRO'', str ''GGS'', str ''CATENARE'',
      str ''GOR'', str ''VAO'', str ''GRB'', str ''CEDI'']"
proof -
  let ?ys = "[get_regional_data ! 2, get_regional_data ! 4, get_regional_data ! 3,
         get_regional_data ! 1, get_regional_data ! 5, get_regional_data ! 6,
         get_regional_data ! 0, get_regional_data ! 7]"
  have m: "mset ?ys = mset get_regional_data"
    using mset_sort_values_Total_desc [of get_regional_data]
    by (simp only: sort_values_Total_desc_regional)
  have s: "sorted_wrt (\<lambda>a b. fle (Total b) (Total a)) ?ys"
    using sorted_sort_values_Total_desc [of get_regional_data]
    by (simp only: sort_values_Total_desc_regional)
  from sorted_regions_order m s have "?ys = sort_values_Total_desc get_regional_data"
    by blast
  with sorted_regions_order have "map (\<lambda>r. (Regional r, Total r)) ?ys =
     [(str ''VRC'', fl64 4646 100), (str ''VRO'', fl64 3631 100), (str ''GGS'', fl64 2834 100),
      (str ''CATENARE'', fl64 1425 100), (str ''GOR'', fl64 1316 100), (str ''VAO'', fl64 907 100),
      (str ''GRB'', fl64 50 100), (str ''CEDI'', fl64 38 100)]"
    by simp
  then have "map Regional ?ys =
     [str ''VRC'', str ''VRO'', str ''GGS'', str ''CATENARE'',
      str ''GOR'', str ''VAO'', str ''GRB'', str ''CEDI'']"
    by simp
  with m s show ?thesis
    by blast
qed

subsection \<open>The top contributor\<close>

lemma argmax_from_first_max:
  assumes "bi < length pre" "b = pre ! bi" "i = length pre"
      and "\<forall>j < length pre. valof (pre ! j) \<le> valof b"
      and "\<forall>j < bi. valof (pre ! j) < valof b"
  shows "argmax_from b bi i xs < length (pre @ xs) \<and>
         (\<forall>j < length (pre @ xs).
            valof ((pre @ xs) ! j) \<le> valof ((pre @ xs) ! argmax_from b bi i xs)) \<and>
         (\<forall>j < argmax_from b bi i xs.
            valof ((pre @ xs) ! j) < valof ((pre @ xs) ! argmax_from b bi i xs))"
  using assms
proof (induction xs arbitrary: pre b bi i)
  case Nil
  then show ?case by simp
next
  case (Cons x xs)
  have app: "pre @ x # xs = (pre @ [x]) @ xs" by simp
  show ?case
  proof (cases "fle x b")
    case True
    then have le: "valof x \<le> valof b" by (simp add: fle_iff)
    have "argmax_from b bi (Suc i) xs < length ((pre @ [x]) @ xs) \<and>
         (\<forall>j < length ((pre @ [x]) @ xs).
            valof (((pre @ [x]) @ xs) ! j) \<le> valof (((pre @ [x]) @ xs) ! argmax_from b bi (Suc i) xs)) \<and>
         (\<forall>j < argmax_from b bi (Suc i) xs.
            valof (((pre @ [x]) @ xs) ! j) < valof (((pre @ [x]) @ xs) ! argmax_from b bi (Suc i) xs))"
    proof (rule Cons.IH)
      show "bi < length (pre @ [x])" using Cons.prems(1) by simp
      show "b = (pre @ [x]) ! bi" using Cons.prems(1,2) by (simp add: nth_append)
      show "Suc i = length (pre @ [x])" using Cons.prems(3) by simp
      show "\<forall>j < length (pre @ [x]). valof ((pre @ [x]) ! j) \<le> valof b"
        using Cons.prems(4) le by (auto simp: nth_append less_Suc_eq)
      show "\<forall>j < bi. valof ((pre @ [x]) ! j) < valof b"
        using Cons.prems(1,5) by (auto simp: nth_append)
    qed
    with True show ?thesis unfolding app by simp
  next
    case False
    then have lt: "valof b < valof x" by (simp add: fle_iff)
    have "argmax_from x i (Suc i) xs < length ((pre @ [x]) @ xs) \<and>
         (\<forall>j < length ((pre @ [x]) @ xs).
            valof (((pre @ [x]) @ xs) ! j) \<le> valof (((pre @ [x]) @ xs) ! argmax_from x i (Suc i) xs)) \<and>
         (\<forall>j < argmax_from x i (Suc i) xs.
            valof (((pre @ [x]) @ xs) ! j) < valof (((pre @ [x]) @ xs) ! argmax_from x i (Suc i) xs))"
    proof (rule Cons.IH)
      show "i < length (pre @ [x])" using Cons.prems(3) by simp
      show "x = (pre @ [x]) ! i" using Cons.prems(3) by simp
      show "Suc i = length (pre @ [x])" using Cons.prems(3) by simp
      show "\<forall>j < length (pre @ [x]). valof ((pre @ [x]) ! j) \<le> valof x"
        using Cons.prems(4) lt by (fastforce simp: nth_append less_Suc_eq)
      show "\<forall>j < i. valof ((pre @ [x]) ! j) < valof x"
        using Cons.prems(3,4) lt by (fastforce simp: nth_append)
    qed
    with False show ?thesis unfolding app by simp
  qed
qed

lemma idxmax_first_max:
  assumes "idxmax xs = Inr i"
  shows "i < length xs \<and> (\<forall>j < length xs. valof (xs ! j) \<le> valof (xs ! i)) \<and>
         (\<forall>j < i. valof (xs ! j) < valof (xs ! i))"
proof (cases xs)
  case Nil
  with assms show ?thesis by (simp add: idxmax_def)
next
  case (Cons x rest)
  with assms have i: "i = argmax_from x 0 1 rest" by (simp add: idxmax_def)
  have "argmax_from x 0 1 rest < length ([x] @ rest) \<and>
         (\<forall>j < length ([x] @ rest).
            valof (([x] @ rest) ! j) \<le> valof (([x] @ rest) ! argmax_from x 0 1 rest)) \<and>
         (\<forall>j < argmax_from x 0 1 rest.
            valof (([x] @ rest) ! j) < valof (([x] @ rest) ! argmax_from x 0 1 rest))"
    by (rule argmax_from_first_max) simp_all
  with i Cons show ?thesis by simp
qed

lemma idxmax_returns: "xs \<noteq> [] \<Longrightarrow> \<exists>i. idxmax xs = Inr i"
  by (cases xs) (simp_all add: idxmax_def)

lemma top_regional_first_max:
  assumes "df \<noteq> []"
  shows "\<exists>i < length df. top_regional df = Inr (df ! i) \<and>
           (\<forall>j < length df. valof (Total (df ! j)) \<le> valof (Total (df ! i))) \<and>
           (\<forall>j < i. valof (Total (df ! j)) < valof (Total (df ! i)))"
proof -
  from assms obtain i where i: "idxmax (map Total df) = Inr i"
    using idxmax_returns [of "map Total df"] by auto
  have h: "i < length (map Total df) \<and>
           (\<forall>j < length (map Total df). valof (map Total df ! j) \<le> valof (map Total df ! i)) \<and>
           (\<forall>j < i. valof (map Total df ! j) < valof (map Total df ! i))"
    by (rule idxmax_first_max [OF i])
  then have len: "i < length df"
    by simp
  from h have mx: "\<forall>j < length (map Total df). valof (map Total df ! j) \<le> valof (map Total df ! i)"
    by blast
  from h have fst: "\<forall>j < i. valof (map Total df ! j) < valof (map Total df ! i)"
    by blast
  from i len have "top_regional df = Inr (df ! i)"
    by (simp add: top_regional_def loc_def)
  moreover have "\<forall>j < length df. valof (Total (df ! j)) \<le> valof (Total (df ! i))"
  proof (intro allI impI)
    fix j assume j: "j < length df"
    then have "j < length (map Total df)" by simp
    with mx have "valof (map Total df ! j) \<le> valof (map Total df ! i)" by blast
    with j len show "valof (Total (df ! j)) \<le> valof (Total (df ! i))" by (simp only: nth_map)
  qed
  moreover have "\<forall>j < i. valof (Total (df ! j)) < valof (Total (df ! i))"
  proof (intro allI impI)
    fix j assume j: "j < i"
    with len have jl: "j < length df" by simp
    from fst j have "valof (map Total df ! j) < valof (map Total df ! i)" by blast
    with jl len show "valof (Total (df ! j)) < valof (Total (df ! i))" by (simp only: nth_map)
  qed
  ultimately show ?thesis
    using len by blast
qed

lemma top_regional_regional: "top_regional get_regional_data = Inr (get_regional_data ! 2)"
  unfolding get_regional_data_binary64 by code_simp

text \<open>
  Claim C7. On the region table the top contributor is the row VRC with total 46.46. On any
  non-empty frame the computation returns a row whose total is the maximum, and every row
  before it has a strictly smaller total: among equal maxima the first one in input order
  is returned.
\<close>

theorem top_contributor:
  "top_regional get_regional_data = Inr (get_regional_data ! 2) \<and>
   Regional (get_regional_data ! 2) = str ''VRC'' \<and>
   Total (get_regional_data ! 2) = fl64 4646 100 \<and>
   (\<forall>df. df \<noteq> [] \<longrightarrow>
      (\<exists>i < length df. top_regional df = Inr (df ! i) \<and>
         (\<forall>j < length df. valof (Total (df ! j)) \<le> valof (Total (df ! i))) \<and>
         (\<forall>j < i. valof (Total (df ! j)) < valof (Total (df ! i)))))"
proof -
  have "Regional (get_regional_data ! 2) = str ''VRC''"
    "Total (get_regional_data ! 2) = fl64 4646 100"
    by (simp_all add: get_regional_data_binary64 literal_46_46)
  with top_regional_regional top_regional_first_max show ?thesis
    by blast
qed

theorem top_contributor_witness:
  "[get_regional_data ! 1,
    (get_regional_data ! 0)\<lparr>Total := Total (get_regional_data ! 2)\<rparr>,
    get_regional_data ! 2] \<noteq> [] \<and>
   (\<exists>i < 3.
      top_regional [get_regional_data ! 1,
                    (get_regional_data ! 0)\<lparr>Total := Total (get_regional_data ! 2)\<rparr>,
                    get_regional_data ! 2]
        = Inr ([get_regional_data ! 1,
                (get_regional_data ! 0)\<lparr>Total := Total (get_regional_data ! 2)\<rparr>,
                get_regional_data ! 2] ! i)) \<and>
   top_regional [get_regional_data ! 1,
                 (get_regional_data ! 0)\<lparr>Total := Total (get_regional_data ! 2)\<rparr>,
                 get_regional_data ! 2]
     = Inr ((get_regional_data ! 0)\<lparr>Total := Total (get_regional_data ! 2)\<rparr>)"
proof -
  let ?tie = "[get_regional_data ! 1,
               (get_regional_data ! 0)\<lparr>Total := Total (get_regional_data ! 2)\<rparr>,
               get_regional_data ! 2]"
  have ne: "?tie \<noteq> []" by simp
  from top_contributor ne
  have ex: "\<exists>i < length ?tie. top_regional ?tie = Inr (?tie ! i) \<and>
         (\<forall>j < length ?tie. valof (Total (?tie ! j)) \<le> valof (Total (?tie ! i))) \<and>
         (\<forall>j < i. valof (Total (?tie ! j)) < valof (Total (?tie ! i)))"
    by blast
  have ev: "top_regional ?tie = Inr ((get_regional_data ! 0)\<lparr>Total := Total (get_regional_data ! 2)\<rparr>)"
    unfolding get_regional_data_binary64 by code_simp
  from ex obtain i where i: "i < length ?tie" "top_regional ?tie = Inr (?tie ! i)"
    by blast
  from i(1) have "i < 3"
    by simp
  with i(2) have "\<exists>i < 3. top_regional ?tie = Inr (?tie ! i)"
    by blast
  with ne ev show ?thesis
    by blast
qed

section \<open>The factor filter\<close>

subsection \<open>Matching decides the language of the pattern\<close>

lemma nullable_iff: "nullable r \<longleftrightarrow> [] \<in> lang r"
  by (induction r) (auto intro: star_nil)

lemma star_Cons_split:
  assumes "x \<in> star A" "x = c # w"
  shows "\<exists>u v. w = u @ v \<and> c # u \<in> A \<and> v \<in> star A"
  using assms
proof (induction arbitrary: w rule: star.induct)
  case star_nil
  then show ?case by simp
next
  case (star_app u v)
  show ?case
  proof (cases u)
    case Nil
    with star_app show ?thesis by simp
  next
    case (Cons a u')
    with star_app.prems have "a = c" "w = u' @ v" by simp_all
    with Cons star_app.hyps show ?thesis by blast
  qed
qed

lemma star_Cons_iff:
  "c # w \<in> star A \<longleftrightarrow> (\<exists>u v. w = u @ v \<and> c # u \<in> A \<and> v \<in> star A)"
proof
  assume "c # w \<in> star A"
  then show "\<exists>u v. w = u @ v \<and> c # u \<in> A \<and> v \<in> star A"
    by (rule star_Cons_split) simp
next
  assume "\<exists>u v. w = u @ v \<and> c # u \<in> A \<and> v \<in> star A"
  then obtain u v where "w = u @ v" "c # u \<in> A" "v \<in> star A" by blast
  then show "c # w \<in> star A"
    using star_app [of "c # u" A v] by simp
qed

lemma deriv_lang: "w \<in> lang (deriv c r) \<longleftrightarrow> c # w \<in> lang r"
proof (induction r arbitrary: w)
  case (Seq r s)
  show ?case
  proof (cases "nullable r")
    case True
    then have n: "[] \<in> lang r" by (simp add: nullable_iff)
    show ?thesis
    proof
      assume "w \<in> lang (deriv c (Seq r s))"
      with True have "(\<exists>u v. w = u @ v \<and> c # u \<in> lang r \<and> v \<in> lang s) \<or> c # w \<in> lang s"
        using Seq.IH by auto
      then show "c # w \<in> lang (Seq r s)"
      proof
        assume "\<exists>u v. w = u @ v \<and> c # u \<in> lang r \<and> v \<in> lang s"
        then obtain u v where "w = u @ v" "c # u \<in> lang r" "v \<in> lang s" by blast
        then have "c # w = (c # u) @ v \<and> c # u \<in> lang r \<and> v \<in> lang s" by simp
        then show ?thesis by (simp only: lang.simps) blast
      next
        assume "c # w \<in> lang s"
        with n have "c # w = [] @ (c # w) \<and> [] \<in> lang r \<and> c # w \<in> lang s" by simp
        then show ?thesis by (simp only: lang.simps) blast
      qed
    next
      assume "c # w \<in> lang (Seq r s)"
      then obtain u v where uv: "c # w = u @ v" "u \<in> lang r" "v \<in> lang s" by auto
      show "w \<in> lang (deriv c (Seq r s))"
      proof (cases u)
        case Nil
        with uv True show ?thesis using Seq.IH by auto
      next
        case (Cons a u')
        with uv have "a = c" "w = u' @ v" by simp_all
        with Cons uv True show ?thesis using Seq.IH by auto
      qed
    qed
  next
    case False
    then have n: "[] \<notin> lang r" by (simp add: nullable_iff)
    show ?thesis
    proof
      assume "w \<in> lang (deriv c (Seq r s))"
      with False obtain u v where "w = u @ v" "c # u \<in> lang r" "v \<in> lang s"
        using Seq.IH by auto
      then have "c # w = (c # u) @ v \<and> c # u \<in> lang r \<and> v \<in> lang s" by simp
      then show "c # w \<in> lang (Seq r s)" by (simp only: lang.simps) blast
    next
      assume "c # w \<in> lang (Seq r s)"
      then obtain u v where uv: "c # w = u @ v" "u \<in> lang r" "v \<in> lang s" by auto
      show "w \<in> lang (deriv c (Seq r s))"
      proof (cases u)
        case Nil
        with uv n show ?thesis by simp
      next
        case (Cons a u')
        with uv have "a = c" "w = u' @ v" by simp_all
        with Cons uv False show ?thesis using Seq.IH by auto
      qed
    qed
  qed
next
  case (Star r)
  have "w \<in> lang (deriv c (Star r)) \<longleftrightarrow> (\<exists>u v. w = u @ v \<and> c # u \<in> lang r \<and> v \<in> star (lang r))"
    using Star.IH by auto
  then show ?case
    by (simp add: star_Cons_iff)
qed auto

lemma match_prefix_iff: "match_prefix r s \<longleftrightarrow> (\<exists>u v. s = u @ v \<and> u \<in> lang r)"
proof (induction s arbitrary: r)
  case Nil
  then show ?case by (simp add: nullable_iff)
next
  case (Cons c s)
  have "(\<exists>u v. c # s = u @ v \<and> u \<in> lang r)
          \<longleftrightarrow> [] \<in> lang r \<or> (\<exists>u v. s = u @ v \<and> c # u \<in> lang r)"
    by (auto simp: Cons_eq_append_conv)
  with Cons.IH [of "deriv c r"] show ?case
    by (simp add: nullable_iff deriv_lang)
qed

text \<open>
  The model of \<^verbatim>\<open>re.search\<close> finds a match exactly when some part of the subject is in the
  language of the pattern.
\<close>

lemma re_search_iff: "re_search r s \<longleftrightarrow> (\<exists>t u v. s = t @ u @ v \<and> u \<in> lang r)"
proof (induction s)
  case Nil
  then show ?case by (simp add: nullable_iff)
next
  case (Cons c s)
  have "(\<exists>t u v. c # s = t @ u @ v \<and> u \<in> lang r)
          \<longleftrightarrow> (\<exists>u v. c # s = u @ v \<and> u \<in> lang r) \<or> (\<exists>t u v. s = t @ u @ v \<and> u \<in> lang r)"
  proof
    assume "\<exists>t u v. c # s = t @ u @ v \<and> u \<in> lang r"
    then obtain t u v where tuv: "c # s = t @ u @ v" "u \<in> lang r" by blast
    show "(\<exists>u v. c # s = u @ v \<and> u \<in> lang r) \<or> (\<exists>t u v. s = t @ u @ v \<and> u \<in> lang r)"
    proof (cases t)
      case Nil
      with tuv show ?thesis by auto
    next
      case (Cons a t')
      with tuv have "s = t' @ u @ v" by simp
      with tuv(2) show ?thesis by blast
    qed
  next
    assume "(\<exists>u v. c # s = u @ v \<and> u \<in> lang r) \<or> (\<exists>t u v. s = t @ u @ v \<and> u \<in> lang r)"
    then show "\<exists>t u v. c # s = t @ u @ v \<and> u \<in> lang r"
    proof
      assume "\<exists>u v. c # s = u @ v \<and> u \<in> lang r"
      then obtain u v where "c # s = [] @ u @ v" "u \<in> lang r" by auto
      then show ?thesis by blast
    next
      assume "\<exists>t u v. s = t @ u @ v \<and> u \<in> lang r"
      then obtain t u v where "s = t @ u @ v" "u \<in> lang r" by blast
      then have "c # s = (c # t) @ u @ v" by simp
      with \<open>u \<in> lang r\<close> show ?thesis by blast
    qed
  qed
  with Cons.IH show ?case
    by (simp del: match_prefix.simps add: match_prefix_iff)
qed

subsection \<open>The filter on the factor table\<close>

lemma get_factors_data_length: "length get_factors_data = 5"
  by (simp add: get_factors_data_def)

text \<open>
  Claim C1. With the filter \<^verbatim>\<open>diesel\<close> the view shows no row at all: the name of F-001 is
  \<^verbatim>\<open>Di\<close>, U+00E9, \<^verbatim>\<open>sel (ACPM)\<close>, and ignoring case does not make \<^verbatim>\<open>e\<close> match U+00E9. The
  same holds for \<^verbatim>\<open>Diesel\<close>, the example the search box itself suggests; only the accented
  spelling finds F-001. The empty filter shows all five rows and \<^verbatim>\<open>xyz\<close> shows none, without an error.
\<close>

theorem factor_filter_diesel:
  "Gestor_de_Factores (str ''diesel'') = Inr [] \<and>
   Gestor_de_Factores (str ''Diesel'') = Inr [] \<and>
   map ID (projr (Gestor_de_Factores (str ''di'' @ [0xE9] @ str ''sel''))) = [str ''F-001''] \<and>
   Gestor_de_Factores [] = Inr get_factors_data \<and>
   length get_factors_data = 5 \<and>
   Gestor_de_Factores (str ''xyz'') = Inr []"
  by code_simp

text \<open>
  Claim C9. The filter is a regular expression and not a literal substring: the non-empty
  filter \<^verbatim>\<open>(\<close> raises \<^verbatim>\<open>re.error\<close> (missing closing parenthesis), where the literal reading of
  the specification finds F-001, whose name contains a parenthesis; and \<^verbatim>\<open>gas.lina\<close> finds
  F-002, where the literal reading finds nothing.
\<close>

theorem filter_is_regex:
  "str ''('' \<noteq> [] \<and>
   Gestor_de_Factores (str ''('') = Inl Missing_paren \<and>
   map ID (spec_factor_filter (str ''('')) = [str ''F-001''] \<and>
   map ID (projr (Gestor_de_Factores (str ''gas.lina''))) = [str ''F-002''] \<and>
   spec_factor_filter (str ''gas.lina'') = []"
  by code_simp

subsection \<open>The filter and the table\<close>

lemma shown_rows_filtered:
  assumes "Gestor_de_Factores_with contains filtro = Inr rows"
  shows "\<exists>keep. rows = filter keep get_factors_data"
proof (cases "filtro = []")
  case True
  with assms have "rows = filter (\<lambda>row. True) get_factors_data"
    by (simp add: Gestor_de_Factores_with_def)
  then show ?thesis by blast
next
  case False
  with assms obtain keep where "contains filtro = Inr keep"
    and "rows = filter (\<lambda>row. keep (Nombre row)) get_factors_data"
    by (auto simp: Gestor_de_Factores_with_def split: sum.splits)
  then show ?thesis by blast
qed

lemma shown_rows_subsequence:
  "Gestor_de_Factores_with contains filtro = Inr rows \<Longrightarrow>
     subseq rows get_factors_data \<and> set rows \<subseteq> set get_factors_data"
  using shown_rows_filtered [of contains filtro rows] by auto

text \<open>A run shows what the first definition of the view gives, and raises when it raises.\<close>

lemma run_shows:
  "Gestor_de_Factores_run contains filtro h = Inr r
   \<Longrightarrow> Gestor_de_Factores_with contains filtro = Inr (run_shown r)"
  by (auto simp: Gestor_de_Factores_run_def Gestor_de_Factores_with_def get_factors_data_call_def
        mask_index_def new_frame_def rows_at_def split: sum.splits if_splits)

lemma run_returns:
  "Gestor_de_Factores_with contains filtro = Inr rows
   \<Longrightarrow> \<exists>r. Gestor_de_Factores_run contains filtro h = Inr r"
  by (auto simp: Gestor_de_Factores_run_def Gestor_de_Factores_with_def get_factors_data_call_def
        mask_index_def new_frame_def split: sum.splits if_splits)

lemma run_table_kept:
  assumes "Gestor_de_Factores_run contains filtro h = Inr r"
  shows "run_table r = next_addr h"
    and "frames (run_store r) (run_table r) = Some get_factors_data"
    and "\<forall>a < next_addr h. frames (run_store r) a = frames h a"
  using assms
  by (auto simp: Gestor_de_Factores_run_def get_factors_data_call_def
        mask_index_def new_frame_def split: sum.splits if_splits)

text \<open>
  Claim C10. Whatever \<^verbatim>\<open>str.contains\<close> does with the filter, when the view does not raise the
  rows it shows are rows of the factor table, unmodified and in their original order: the
  result is the table filtered by some test. The filtering leaves the table as it was: at the
  end of the run the frame that \<^verbatim>\<open>get_factors_data\<close> built still holds its five rows, and
  every frame that existed before the run holds what it held.
\<close>

theorem filter_keeps_table:
  "Gestor_de_Factores_run contains filtro h = Inr r \<Longrightarrow>
     subseq (run_shown r) get_factors_data \<and>
     set (run_shown r) \<subseteq> set get_factors_data \<and>
     (\<exists>keep. run_shown r = filter keep get_factors_data) \<and>
     Gestor_de_Factores_with contains filtro = Inr (run_shown r) \<and>
     frames (run_store r) (run_table r) = Some get_factors_data \<and>
     rows_at (run_store r) (run_table r) = get_factors_data \<and>
     length (rows_at (run_store r) (run_table r)) = 5 \<and>
     (\<forall>a < next_addr h. frames (run_store r) a = frames h a)"
proof -
  assume run: "Gestor_de_Factores_run contains filtro h = Inr r"
  then have shown: "Gestor_de_Factores_with contains filtro = Inr (run_shown r)"
    by (rule run_shows)
  then obtain keep where k: "run_shown r = filter keep get_factors_data"
    using shown_rows_filtered by blast
  then have "subseq (run_shown r) get_factors_data"
    by simp
  moreover from k have "set (run_shown r) \<subseteq> set get_factors_data"
    by auto
  moreover have t: "frames (run_store r) (run_table r) = Some get_factors_data"
    using run by (rule run_table_kept(2))
  moreover from t have "rows_at (run_store r) (run_table r) = get_factors_data"
    by (simp add: rows_at_def)
  moreover from t have "length (rows_at (run_store r) (run_table r)) = 5"
    by (simp add: rows_at_def get_factors_data_length)
  moreover have "\<forall>a < next_addr h. frames (run_store r) a = frames h a"
    using run by (rule run_table_kept(3))
  ultimately show ?thesis
    using k shown by blast
qed

theorem filter_keeps_table_witness:
  "\<exists>r. Gestor_de_Factores_run str_contains (str ''gas'')
          \<lparr>next_addr = 1, frames = [0 \<mapsto> [get_factors_data ! 3]]\<rparr> = Inr r \<and>
       run_shown r = [get_factors_data ! 1] \<and>
       subseq (run_shown r) get_factors_data \<and>
       frames (run_store r) (run_table r) = Some get_factors_data \<and>
       frames (run_store r) 0 = Some [get_factors_data ! 3]"
proof -
  let ?h = "\<lparr>next_addr = 1, frames = [0 \<mapsto> [get_factors_data ! 3]]\<rparr>"
  have e: "Gestor_de_Factores_with str_contains (str ''gas'') = Inr [get_factors_data ! 1]"
    by code_simp
  then obtain r where r: "Gestor_de_Factores_run str_contains (str ''gas'') ?h = Inr r"
    using run_returns by blast
  from filter_keeps_table [OF r]
  have "subseq (run_shown r) get_factors_data"
    and w: "Gestor_de_Factores_with str_contains (str ''gas'') = Inr (run_shown r)"
    and "frames (run_store r) (run_table r) = Some get_factors_data"
    and old: "\<forall>a < next_addr ?h. frames (run_store r) a = frames ?h a"
    by blast+
  moreover from w e have "run_shown r = [get_factors_data ! 1]"
    by simp
  moreover from old have "frames (run_store r) 0 = Some [get_factors_data ! 3]"
    by simp
  ultimately show ?thesis
    using r by blast
qed

section \<open>The diagram and its fallbacks\<close>

lemma has_graphviz_emit [simp]: "has_graphviz (emit ws s) = has_graphviz s"
  by (simp add: emit_def)

lemma graphviz_calls_emit [simp]: "graphviz_calls (emit ws s) = graphviz_calls s"
  by (simp add: emit_def)

lemma page_emit [simp]: "page (emit ws s) = page s @ ws"
  by (simp add: emit_def)

lemma try_block_raises:
  assumes "n < length cs"
      and "\<forall>j < n. faults (k + j) = None"
      and "faults (k + n) = Some e"
      and "Graphviz_chart \<notin> set (take n cs)"
  shows "try_block faults k graph cs s
           = (Some e, s\<lparr>graphviz_calls := graphviz_calls s @ take (Suc n) cs\<rparr>)"
  using assms
proof (induction cs arbitrary: n k graph s)
  case Nil
  then show ?case by simp
next
  case (Cons c cs)
  show ?case
  proof (cases n)
    case 0
    with Cons.prems(3) show ?thesis by simp
  next
    case (Suc m)
    from Cons.prems(2) Suc have none: "faults k = None"
      by (metis add.right_neutral zero_less_Suc)
    from Cons.prems(4) Suc have c: "c \<noteq> Graphviz_chart"
      by auto
    have m: "m < length cs"
      using Cons.prems(1) Suc by simp
    have before: "\<forall>j < m. faults (Suc k + j) = None"
    proof (intro allI impI)
      fix j assume "j < m"
      then have "Suc j < n" using Suc by simp
      with Cons.prems(2) have "faults (k + Suc j) = None" by blast
      then show "faults (Suc k + j) = None" by simp
    qed
    have at: "faults (Suc k + m) = Some e"
      using Cons.prems(3) Suc by simp
    have rest: "Graphviz_chart \<notin> set (take m cs)"
      using Cons.prems(4) Suc by auto
    have "try_block faults (Suc k) (graph @ [c]) cs (s\<lparr>graphviz_calls := graphviz_calls s @ [c]\<rparr>)
            = (Some e, (s\<lparr>graphviz_calls := graphviz_calls s @ [c]\<rparr>)
                 \<lparr>graphviz_calls := graphviz_calls (s\<lparr>graphviz_calls := graphviz_calls s @ [c]\<rparr>)
                                      @ take (Suc m) cs\<rparr>)"
      by (rule Cons.IH [OF m before at rest])
    with none c Suc show ?thesis
      by simp
  qed
qed

lemma length_diagram_calls: "length diagram_calls = 16"
  by (simp add: diagram_calls_def build_calls_def)

lemma no_chart_before_last:
  assumes "k < length diagram_calls"
  shows "Graphviz_chart \<notin> set (take k diagram_calls)"
proof -
  have "Graphviz_chart \<notin> set build_calls"
    by (simp add: build_calls_def)
  moreover from assms have "k \<le> length build_calls"
    by (simp add: diagram_calls_def)
  then have "take k diagram_calls = take k build_calls"
    by (simp add: diagram_calls_def)
  ultimately show ?thesis
    by (metis in_set_takeD)
qed

text \<open>
  Claim C5. When the import of the diagram library failed at the start, the flag is false,
  and with a false flag the view always puts the textual flow summary on the page, after the
  notice that the library was not found and that the tree is simplified to text. It makes no
  call to the diagram library and puts no chart on the page, whatever those calls would do.
\<close>

theorem no_graphviz_text_only:
  "has_graphviz (startup Import_error) = False \<and>
   (\<forall>faults s. \<not> has_graphviz s \<longrightarrow>
      (\<exists>s'. Ingenieria_de_Preguntas faults s = Inr s' \<and>
            has_graphviz s' = False \<and>
            graphviz_calls s' = graphviz_calls s \<and>
            page s' = page s @ [Markdown titulo, Write subtitulo,
                                Warning aviso_no_detectada, Info aviso_simplificado,
                                Code flujo_logico] @ exitos \<and>
            (\<forall>g. Chart g \<notin> set ([Markdown titulo, Write subtitulo,
                                Warning aviso_no_detectada, Info aviso_simplificado,
                                Code flujo_logico] @ exitos))))"
  by (simp add: startup_def Ingenieria_de_Preguntas_def exitos_def)

theorem no_graphviz_text_only_witness:
  "\<not> has_graphviz (startup Import_error) \<and>
   (\<exists>s'. Ingenieria_de_Preguntas (\<lambda>k. Some Exception) (startup Import_error) = Inr s' \<and>
         graphviz_calls s' = [] \<and>
         page s' = [Markdown titulo, Write subtitulo,
                    Warning aviso_no_detectada, Info aviso_simplificado,
                    Code flujo_logico] @ exitos)"
proof -
  have f: "\<not> has_graphviz (startup Import_error)"
    by (simp add: startup_def)
  from no_graphviz_text_only f
  obtain s' where "Ingenieria_de_Preguntas (\<lambda>k. Some Exception) (startup Import_error) = Inr s'"
    and "graphviz_calls s' = graphviz_calls (startup Import_error)"
    and "page s' = page (startup Import_error) @ [Markdown titulo, Write subtitulo,
                                Warning aviso_no_detectada, Info aviso_simplificado,
                                Code flujo_logico] @ exitos"
    by blast
  with f show ?thesis
    by (simp add: startup_def)
qed

text \<open>
  Claim C6. With the library available, when any statement of the \<^verbatim>\<open>try\<close> block, a call that
  builds the graph or the call that renders it, raises an \<open>Exception\<close>, the view still
  returns: it shows a warning and the textual summary of the flow instead of the chart, goes
  on with the rest of the page, and leaves the availability flag as it was.
\<close>

theorem render_fault_falls_back:
  assumes "has_graphviz s"
      and "k < length diagram_calls"
      and "\<forall>j < k. faults j = None"
      and "faults k = Some Exception"
  shows "\<exists>s'. Ingenieria_de_Preguntas faults s = Inr s' \<and>
              has_graphviz s' = has_graphviz s \<and>
              graphviz_calls s' = graphviz_calls s @ take (Suc k) diagram_calls \<and>
              page s' = page s @ [Markdown titulo, Write subtitulo,
                                  Warning aviso_render, Info flujo_resumen] @ exitos"
proof -
  let ?s1 = "emit [Markdown titulo, Write subtitulo] s"
  have "try_block faults 0 [] diagram_calls ?s1
          = (Some Exception, ?s1\<lparr>graphviz_calls := graphviz_calls ?s1 @ take (Suc k) diagram_calls\<rparr>)"
    by (rule try_block_raises) (use assms no_chart_before_last in simp_all)
  with assms(1) show ?thesis
    by (simp add: Ingenieria_de_Preguntas_def emit_def)
qed

theorem render_fault_falls_back_witness:
  "has_graphviz (startup Imported) \<and>
   15 < length diagram_calls \<and>
   (\<exists>s'. Ingenieria_de_Preguntas (\<lambda>j. if j = 15 then Some Exception else None)
           (startup Imported) = Inr s' \<and>
         has_graphviz s' \<and>
         graphviz_calls s' = diagram_calls \<and>
         page s' = [Markdown titulo, Write subtitulo,
                    Warning aviso_render, Info flujo_resumen] @ exitos)"
proof -
  have h: "has_graphviz (startup Imported)"
    by (simp add: startup_def)
  have k: "15 < length diagram_calls"
    by (simp add: length_diagram_calls)
  have b: "\<forall>j < 15. (\<lambda>j::nat. if j = 15 then Some Exception else None) j = None"
    by simp
  have a: "(\<lambda>j::nat. if j = 15 then Some Exception else None) 15 = Some Exception"
    by simp
  from render_fault_falls_back [OF h k b a]
  obtain s' where "Ingenieria_de_Preguntas (\<lambda>j. if j = 15 then Some Exception else None)
           (startup Imported) = Inr s'"
    and "has_graphviz s' = has_graphviz (startup Imported)"
    and "graphviz_calls s' = graphviz_calls (startup Imported) @ take (Suc 15) diagram_calls"
    and "page s' = page (startup Imported) @ [Markdown titulo, Write subtitulo,
                                  Warning aviso_render, Info flujo_resumen] @ exitos"
    by blast
  with h k show ?thesis
    by (simp add: startup_def length_diagram_calls)
qed

subsection \<open>The other outcomes of the \<^verbatim>\<open>try\<close> block\<close>

text \<open>
  When no statement raises, the chart of the fifteen building calls is on the page; an
  exception that is not an \<open>Exception\<close> is not handled and leaves the view.
\<close>

lemma render_without_fault:
  "Ingenieria_de_Preguntas (\<lambda>k. None) (startup Imported) =
     Inr \<lparr>has_graphviz = True,
          page = [Markdown titulo, Write subtitulo, Chart build_calls] @ exitos,
          graphviz_calls = diagram_calls\<rparr>"
  by (simp add: Ingenieria_de_Preguntas_def startup_def emit_def diagram_calls_def build_calls_def)

lemma base_exception_propagates:
  "has_graphviz s \<Longrightarrow> Ingenieria_de_Preguntas (\<lambda>k. Some Base_exception) s = Inl Base_exception"
  by (simp add: Ingenieria_de_Preguntas_def diagram_calls_def build_calls_def)

end
